theory Spec2Isabelle
  imports Complex_Main "HOL-Library.Word"
begin

section \<open>The Monte Carlo worker of \<open>workers.py\<close>\<close>

text \<open>
  The source is one function:
  \<^verbatim>\<open>
  def worker(iterations):
      simulations = np.linalg.norm(np.random.rand(iterations,2), axis = 1)
      return np.count_nonzero(simulations < 1)
  \<close>
  It reads NumPy's process-wide generator, so the generator is explicit state here, and
  every exception is a value of the result. A binary64 value is modelled by the real
  number it denotes, and every arithmetic operation of the norm is the exact operation
  followed by binary64 rounding.
\<close>

subsection \<open>Values and errors\<close>

text \<open>
  What a caller can pass as \<open>iterations\<close>: a Python \<open>int\<close> (unbounded) or a Python
  \<open>float\<close>.
\<close>

datatype pyval = PyInt int | PyFloat real

text \<open>
  The two exceptions \<open>np.random.rand\<close> raises on a bad dimension: \<open>TypeError\<close>
  (a float cannot be interpreted as an integer) and \<open>ValueError\<close> (negative dimensions
  are not allowed; maximum allowed dimension exceeded; array is too big).
\<close>

datatype error = TypeError | ValueError

subsection \<open>The generator\<close>

text \<open>
  The state of the global generator: the sequence of doubles it is going to produce
  (fixed by the seed) and how many of them have been consumed.
\<close>

record rng =
  draws :: "nat \<Rightarrow> real"
  pos :: nat

text \<open>
  \<open>np.random.rand(d0, d1)\<close> allocates its result with \<open>np.empty((d0, d1))\<close>, which
  checks the shape, and then fills it in row-major order with the next \<open>d0 * d1\<close> doubles
  of the generator. The shape is checked before anything is drawn, so a call that raises
  leaves the generator as it was. The checks, on a 64-bit platform:
  \<^item> a float dimension is a \<open>TypeError\<close>;
  \<^item> a negative dimension is a \<open>ValueError\<close>;
  \<^item> a dimension that does not fit the signed 64-bit index type is a \<open>ValueError\<close>
    (maximum allowed dimension exceeded);
  \<^item> a size in bytes, 8 for each double, that does not fit that type is a \<open>ValueError\<close>
    (array is too big); for the \<open>d1 = 2\<close> of the worker that is \<open>d0 \<ge> 2^59\<close>.

  The allocation itself is taken to succeed: running out of memory is a limit of the
  host, not a check of the shape.
\<close>

definition rand :: "pyval \<Rightarrow> nat \<Rightarrow> rng \<Rightarrow> (error + real list list) \<times> rng" where
  "rand d0 d1 g =
     (case d0 of
        PyFloat r \<Rightarrow> (Inl TypeError, g)
      | PyInt n \<Rightarrow>
          if n < 0 then (Inl ValueError, g)
          else if 2 ^ 63 \<le> n then (Inl ValueError, g)
          else if 2 ^ 63 \<le> 8 * n * int d1 then (Inl ValueError, g)
          else (Inr (map (\<lambda>i. map (\<lambda>j. draws g (pos g + i * d1 + j)) [0..<d1]) [0..<nat n]),
                g\<lparr>pos := pos g + nat n * d1\<rparr>))"

subsection \<open>Binary64 rounding\<close>

text \<open>The nearest integer, a tie going to the even one.\<close>

definition round_half_even :: "real \<Rightarrow> int" where
  "round_half_even m =
     (let f = \<lfloor>m\<rfloor>; d = m - of_int f
      in if d < 1 / 2 then f else if 1 / 2 < d then f + 1 else if even f then f else f + 1)"

text \<open>
  Rounding to the nearest binary64 value, ties to even: a value with exponent \<open>e\<close>
  (\<open>2^e \<le> |r| < 2^(e+1)\<close>, and \<open>e = -1022\<close> for the subnormal values) is rounded to a
  multiple of \<open>2^(e-52)\<close>. Overflow is not modelled: above the binary64 range the result
  is a large real where binary64 gives infinity; either is above 1, which is all the
  worker looks at.
\<close>

definition rnd :: "real \<Rightarrow> real" where
  "rnd r =
     (if r = 0 then 0
      else let e = max \<lfloor>log 2 \<bar>r\<bar>\<rfloor> (- 1022); u = 2 powr (of_int e - 52)
           in of_int (round_half_even (r / u)) * u)"

subsection \<open>The array operations\<close>

text \<open>
  \<open>add.reduce\<close> along a row: the elements are added from the left, every sum rounded.
  (NumPy starts from 0; adding the first element to 0 is exact.)
\<close>

fun add_reduce :: "real list \<Rightarrow> real" where
  "add_reduce [] = 0"
| "add_reduce (v # vs) = foldl (\<lambda>s u. rnd (s + u)) v vs"

text \<open>
  \<open>np.linalg.norm(a, axis = 1)\<close> on a two-dimensional array of doubles is
  \<open>sqrt(add.reduce(a * a, axis = 1))\<close>: the squares, their sum and the square root are
  three array operations, each rounding its results.
\<close>

definition norm_axis1 :: "real list list \<Rightarrow> real list" where
  "norm_axis1 a = map (\<lambda>row. rnd (sqrt (add_reduce (map (\<lambda>v. rnd (v * v)) row)))) a"

text \<open>\<open>simulations < c\<close>: the element-wise comparison, a Boolean mask.\<close>

definition less_scalar :: "real list \<Rightarrow> real \<Rightarrow> bool list" where
  "less_scalar xs c = map (\<lambda>d. d < c) xs"

text \<open>\<open>np.count_nonzero\<close> of a Boolean mask: the number of \<open>True\<close> entries.\<close>

definition count_nonzero :: "bool list \<Rightarrow> int" where
  "count_nonzero m = int (length (filter (\<lambda>b. b) m))"

subsection \<open>The worker\<close>

definition worker :: "pyval \<Rightarrow> rng \<Rightarrow> (error + int) \<times> rng" where
  "worker iterations g =
     (case rand iterations 2 g of
        (Inl e, g') \<Rightarrow> (Inl e, g')
      | (Inr a, g') \<Rightarrow>
          (let simulations = norm_axis1 a
           in (Inr (count_nonzero (less_scalar simulations 1)), g')))"

subsection \<open>NumPy's doubles\<close>

text \<open>
  The generator behind \<open>np.random.rand\<close> is the Mersenne Twister. It builds every double
  from two of its 32-bit outputs:
  \<^verbatim>\<open>
  int32_t a = mt19937_next(state) >> 5, b = mt19937_next(state) >> 6;
  return (a * 67108864.0 + b) / 9007199254740992.0;
  \<close>
  Both the product and the quotient are exact in binary64 (\<open>a * 2^26 + b < 2^53\<close>).
\<close>

definition next_double :: "32 word \<Rightarrow> 32 word \<Rightarrow> real" where
  "next_double a b =
     (real (unat (drop_bit 5 a)) * 67108864 + real (unat (drop_bit 6 b))) / 9007199254740992"

text \<open>The doubles of a sequence of 32-bit outputs: two outputs for each.\<close>

definition mt_draws :: "(nat \<Rightarrow> 32 word) \<Rightarrow> nat \<Rightarrow> real" where
  "mt_draws w k = next_double (w (2 * k)) (w (2 * k + 1))"

section \<open>Properties\<close>

subsection \<open>Rounding to the nearest integer\<close>

lemma rhe_near: "of_int k - 1 / 2 < m \<Longrightarrow> m < of_int k + 1 / 2 \<Longrightarrow> round_half_even m = k"
proof -
  assume lo: "of_int k - 1 / 2 < m" and hi: "m < of_int k + 1 / 2"
  show ?thesis
  proof (cases "of_int k \<le> m")
    case True
    then have f: "\<lfloor>m\<rfloor> = k"
      using hi by (intro floor_unique) simp_all
    then show ?thesis
      using hi by (simp add: round_half_even_def Let_def)
  next
    case False
    then have f: "\<lfloor>m\<rfloor> = k - 1"
      using lo by (intro floor_unique) simp_all
    then show ?thesis
      using lo False by (simp add: round_half_even_def Let_def)
  qed
qed

lemma rhe_of_int: "round_half_even (of_int k) = k"
  by (rule rhe_near) simp_all

lemma rhe_le: "m \<le> of_int k \<Longrightarrow> round_half_even m \<le> k"
proof -
  assume m: "m \<le> of_int k"
  show ?thesis
  proof (cases "m = of_int k")
    case True
    then show ?thesis by (simp add: rhe_of_int)
  next
    case False
    with m have "m < of_int k" by simp
    then have "\<lfloor>m\<rfloor> < k"
      by (simp add: floor_less_iff)
    then show ?thesis
      by (simp add: round_half_even_def Let_def)
  qed
qed

lemma rhe_ge: "of_int k \<le> m \<Longrightarrow> k \<le> round_half_even m"
proof -
  assume "of_int k \<le> m"
  then have "k \<le> \<lfloor>m\<rfloor>"
    by (simp add: le_floor_iff)
  then show ?thesis
    by (simp add: round_half_even_def Let_def)
qed

lemma rhe_tie_odd: "odd k \<Longrightarrow> round_half_even (of_int k + 1 / 2) = k + 1"
proof -
  assume k: "odd k"
  have "\<lfloor>of_int k + 1 / 2 :: real\<rfloor> = k"
    by (intro floor_unique) simp_all
  with k show ?thesis
    by (simp add: round_half_even_def Let_def)
qed

subsection \<open>Rounding to binary64\<close>

lemma floor_log2: "0 < r \<Longrightarrow> 2 powr of_int e \<le> r \<Longrightarrow> r < 2 powr (of_int e + 1) \<Longrightarrow> \<lfloor>log 2 r\<rfloor> = e"
  by (simp add: floor_log_eq_powr_iff)

lemma rnd_binade:
  assumes "2 powr of_int e \<le> r" and "r < 2 powr (of_int e + 1)" and "- 1022 \<le> e"
  shows "rnd r = of_int (round_half_even (r / 2 powr (of_int e - 52))) * 2 powr (of_int e - 52)"
proof -
  have pos: "0 < r"
    using assms(1) by (rule less_le_trans [rotated]) simp
  then have "\<lfloor>log 2 \<bar>r\<bar>\<rfloor> = e"
    using assms by (simp add: floor_log2)
  with pos assms(3) show ?thesis
    by (simp add: rnd_def Let_def max_def)
qed

lemma rnd_1: "rnd 1 = 1"
  using rnd_binade [of 0 1] rhe_of_int [of 4503599627370496]
  by (simp add: powr_neg_numeral)

lemma rnd_2: "rnd 2 = 2"
  using rnd_binade [of 1 2] rhe_of_int [of 4503599627370496]
  by (simp add: powr_neg_numeral)

lemma rnd_nonneg: "0 \<le> r \<Longrightarrow> 0 \<le> rnd r"
proof (cases "r = 0")
  case True
  then show ?thesis by (simp add: rnd_def)
next
  case False
  assume "0 \<le> r"
  define u :: real where "u = 2 powr (of_int (max \<lfloor>log 2 \<bar>r\<bar>\<rfloor> (- 1022)) - 52)"
  have u: "0 < u"
    by (simp add: u_def)
  with \<open>0 \<le> r\<close> have "of_int 0 \<le> r / u"
    by simp
  then have "0 \<le> round_half_even (r / u)"
    by (rule rhe_ge)
  with u False show ?thesis
    by (simp add: rnd_def Let_def u_def)
qed

lemma powr_shift53: "(2::real) powr (x + 1) = 9007199254740992 * 2 powr (x - 52)"
proof -
  have "x + 1 = 53 + (x - 52)"
    by simp
  then have "(2::real) powr (x + 1) = 2 powr (53 + (x - 52))"
    by (rule arg_cong)
  also have "\<dots> = 2 powr 53 * 2 powr (x - 52)"
    by (rule powr_add)
  also have "(2::real) powr 53 = 9007199254740992"
    by simp
  finally show ?thesis .
qed

lemma powr_shift52: "(2::real) powr x = 4503599627370496 * 2 powr (x - 52)"
proof -
  have "x = 52 + (x - 52)"
    by simp
  then have "(2::real) powr x = 2 powr (52 + (x - 52))"
    by (rule arg_cong)
  also have "\<dots> = 2 powr 52 * 2 powr (x - 52)"
    by (rule powr_add)
  also have "(2::real) powr 52 = 4503599627370496"
    by simp
  finally show ?thesis .
qed

text \<open>Rounding does not step over a binary64 value above.\<close>

lemma rnd_le:
  assumes r: "0 < r" and le: "r \<le> of_int k * 2 powr (of_int e - 52)"
    and k: "4503599627370496 \<le> k" "k < 9007199254740992" and e: "- 1022 \<le> e"
  shows "rnd r \<le> of_int k * 2 powr (of_int e - 52)"
proof -
  define l where "l = \<lfloor>log 2 r\<rfloor>"
  define e' where "e' = max l (- 1022)"
  define u :: real where "u = (2::real) powr (of_int e' - 52)"
  have u: "0 < u"
    by (simp add: u_def)
  have rlt: "r < (2::real) powr (of_int l + 1)" and rge: "(2::real) powr of_int l \<le> r"
    using r floor_log_eq_powr_iff [of r 2 l] by (simp_all add: l_def)
  have vlt: "of_int k * (2::real) powr (of_int e - 52) < (2::real) powr (of_int e + 1)"
    unfolding powr_shift53 [of "of_int e"] using k by (intro mult_strict_right_mono) simp_all
  have vge: "(2::real) powr of_int e \<le> of_int k * (2::real) powr (of_int e - 52)"
    unfolding powr_shift52 [of "of_int e"] using k by (intro mult_right_mono) simp_all
  have "(2::real) powr of_int l < (2::real) powr (of_int e + 1)"
    using rge le vlt by linarith
  then have "(2::real) powr of_int l < 2 powr of_int (e + 1)"
    by simp
  then have "(of_int l :: real) < of_int (e + 1)"
    by (simp only: powr_less_cancel_iff one_less_numeral_iff semiring_norm)
  then have "l < e + 1"
    by (simp only: of_int_less_iff)
  then have e'e: "e' \<le> e"
    using e by (simp add: e'_def)
  have rnd: "rnd r = of_int (round_half_even (r / u)) * u"
    using r by (simp add: rnd_def Let_def u_def e'_def l_def)
  show ?thesis
  proof (cases "e' = e")
    case True
    then have "r / u \<le> of_int k"
      using le u by (simp add: u_def pos_divide_le_eq)
    then have "round_half_even (r / u) \<le> k"
      by (rule rhe_le)
    then have "of_int (round_half_even (r / u)) * u \<le> of_int k * u"
      using u by simp
    with True show ?thesis
      by (simp add: rnd u_def)
  next
    case False
    with e'e have lt: "e' + 1 \<le> e"
      by simp
    have "l \<le> e'"
      by (simp add: e'_def)
    then have "(2::real) powr (of_int l + 1) \<le> (2::real) powr (of_int e' + 1)"
      by simp
    with rlt have "r < (2::real) powr (of_int e' + 1)"
      by linarith
    also have "\<dots> = 9007199254740992 * u"
      unfolding u_def by (rule powr_shift53)
    finally have "r / u < 9007199254740992"
      using u by (simp add: pos_divide_less_eq)
    then have "r / u \<le> of_int 9007199254740992"
      by simp
    then have "round_half_even (r / u) \<le> 9007199254740992"
      by (rule rhe_le)
    then have "of_int (round_half_even (r / u)) \<le> (9007199254740992 :: real)"
      by linarith
    then have "of_int (round_half_even (r / u)) * u \<le> 9007199254740992 * u"
      using u by simp
    also have "\<dots> = (2::real) powr (of_int e' + 1)"
      unfolding u_def by (rule powr_shift53 [symmetric])
    also have "\<dots> = (2::real) powr of_int (e' + 1)"
      by simp
    also have "\<dots> \<le> (2::real) powr of_int e"
      using lt by (simp only: powr_le_cancel_iff one_less_numeral_iff semiring_norm of_int_le_iff)
    also note vge
    finally show ?thesis
      by (simp add: rnd)
  qed
qed

lemma rnd_0: "rnd 0 = 0"
  by (simp add: rnd_def)

lemma rnd_square_bound:
  assumes "0 \<le> c" and "c \<le> 9007199254740991 / 9007199254740992"
  shows "0 \<le> rnd (c * c) \<and> rnd (c * c) \<le> 9007199254740991 / 9007199254740992"
proof (cases "c * c = 0")
  case True
  then show ?thesis by (simp add: rnd_0)
next
  case False
  with assms(1) have pos: "0 < c * c"
    by (simp add: less_le)
  have "c * c \<le> 1 * (9007199254740991 / 9007199254740992)"
    using assms by (intro mult_mono) simp_all
  then have "c * c \<le> of_int 9007199254740991 * 2 powr (of_int (- 1) - 52)"
    by (simp add: powr_neg_numeral)
  with pos have "rnd (c * c) \<le> of_int 9007199254740991 * 2 powr (of_int (- 1) - 52)"
    by (rule rnd_le) simp_all
  then show ?thesis
    using pos rnd_nonneg [of "c * c"] by (simp add: powr_neg_numeral)
qed

lemma rnd_sum_bound:
  assumes "0 \<le> p" "p \<le> 9007199254740991 / 9007199254740992"
    and "0 \<le> q" "q \<le> 9007199254740991 / 9007199254740992"
  shows "0 \<le> rnd (p + q) \<and> rnd (p + q) \<le> 9007199254740991 / 4503599627370496"
proof (cases "p + q = 0")
  case True
  then show ?thesis by (simp add: rnd_0)
next
  case False
  with assms have pos: "0 < p + q"
    by simp
  have "p + q \<le> of_int 9007199254740991 * 2 powr (of_int 0 - 52)"
    using assms by (simp add: powr_neg_numeral)
  with pos have "rnd (p + q) \<le> of_int 9007199254740991 * 2 powr (of_int 0 - 52)"
    by (rule rnd_le) simp_all
  then show ?thesis
    using pos rnd_nonneg [of "p + q"] by (simp add: powr_neg_numeral)
qed

lemma rnd_root_bound:
  assumes "0 \<le> s" and "s \<le> 9007199254740991 / 4503599627370496"
  shows "0 \<le> rnd (sqrt s) \<and> rnd (sqrt s) \<le> 6369051672525772 / 4503599627370496"
proof -
  let ?t = "sqrt s"
  have t0: "0 \<le> ?t"
    using assms(1) by simp
  have "s < (12738103345051545 / 9007199254740992)\<^sup>2"
    using assms(2) by (simp add: power2_eq_square)
  then have tM: "?t < 12738103345051545 / 9007199254740992"
    by (intro real_less_lsqrt) simp_all
  have le: "rnd ?t \<le> 6369051672525772 / 4503599627370496"
  proof (cases "?t \<le> 6369051672525772 / 4503599627370496")
    case True
    show ?thesis
    proof (cases "?t = 0")
      case True
      then show ?thesis by (simp add: rnd_0)
    next
      case False
      with t0 have pos: "0 < ?t"
        by simp
      from True have "?t \<le> of_int 6369051672525772 * 2 powr (of_int 0 - 52)"
        by (simp add: powr_neg_numeral)
      with pos have "rnd ?t \<le> of_int 6369051672525772 * 2 powr (of_int 0 - 52)"
        by (rule rnd_le) simp_all
      then show ?thesis
        by (simp add: powr_neg_numeral)
    qed
  next
    case False
    then have lo: "6369051672525772 / 4503599627370496 < ?t"
      by simp
    then have "1 \<le> ?t"
      by linarith
    then have "2 powr of_int 0 \<le> ?t"
      by simp
    moreover have "?t < 2 powr (of_int 0 + 1)"
      using tM by simp
    ultimately have "rnd ?t =
        of_int (round_half_even (?t / 2 powr (of_int 0 - 52))) * 2 powr (of_int 0 - 52)"
      by (rule rnd_binade) simp
    moreover have "round_half_even (?t / 2 powr (of_int 0 - 52)) = 6369051672525772"
      using lo tM by (intro rhe_near) (simp_all add: powr_neg_numeral)
    ultimately show ?thesis
      by (simp add: powr_neg_numeral)
  qed
  with t0 show ?thesis
    by (simp add: rnd_nonneg)
qed

lemma binary64_below_sqrt2: "6369051672525772 / 4503599627370496 < sqrt 2"
  by (intro real_less_rsqrt) (simp add: power2_eq_square)

lemma norm_row_bounds:
  assumes "0 \<le> x" "x \<le> 9007199254740991 / 9007199254740992"
    and "0 \<le> y" "y \<le> 9007199254740991 / 9007199254740992"
  shows "0 \<le> rnd (sqrt (rnd (rnd (x * x) + rnd (y * y)))) \<and>
         rnd (sqrt (rnd (rnd (x * x) + rnd (y * y)))) < sqrt 2"
proof -
  have "0 \<le> rnd (rnd (x * x) + rnd (y * y)) \<and>
        rnd (rnd (x * x) + rnd (y * y)) \<le> 9007199254740991 / 4503599627370496"
    using rnd_square_bound [OF assms(1,2)] rnd_square_bound [OF assms(3,4)]
    by (intro rnd_sum_bound) simp_all
  then have "0 \<le> rnd (sqrt (rnd (rnd (x * x) + rnd (y * y)))) \<and>
        rnd (sqrt (rnd (rnd (x * x) + rnd (y * y)))) \<le> 6369051672525772 / 4503599627370496"
    by (intro rnd_root_bound) simp_all
  then show ?thesis
    using binary64_below_sqrt2 by linarith
qed

lemma rnd_sqrt_2: "rnd (sqrt 2) = 6369051672525773 / 4503599627370496"
proof -
  have lo: "12738103345051545 / 9007199254740992 < sqrt 2"
    by (intro real_less_rsqrt) (simp add: power2_eq_square)
  have hi: "sqrt 2 < 12738103345051547 / 9007199254740992"
    by (intro real_less_lsqrt) (simp_all add: power2_eq_square)
  have "2 powr of_int 0 \<le> sqrt 2"
    by simp
  moreover have "sqrt 2 < 2 powr (of_int 0 + 1)"
    using hi by simp
  ultimately have "rnd (sqrt 2) =
      of_int (round_half_even (sqrt 2 / 2 powr (of_int 0 - 52))) * 2 powr (of_int 0 - 52)"
    by (rule rnd_binade) simp
  moreover have "round_half_even (sqrt 2 / 2 powr (of_int 0 - 52)) = 6369051672525773"
    using lo hi by (intro rhe_near) (simp_all add: powr_neg_numeral)
  ultimately show ?thesis
    by (simp add: powr_neg_numeral)
qed

subsection \<open>A sample that NumPy can draw and whose computed norm is 1\<close>

text \<open>
  The sample \<open>(7226161561168607 / 2^53, 5377009159978803 / 2^53)\<close>: the two squares
  round to values whose sum is \<open>1 - 2^-54\<close>, half way between two binary64 values, and
  the tie goes to 1; its exact norm is below 1.
\<close>

lemma rnd_sample_x:
  "rnd (7226161561168607 / 9007199254740992 * (7226161561168607 / 9007199254740992))
     = 5797297187649733 / 9007199254740992"
  using rnd_binade [of "- 1"
      "7226161561168607 / 9007199254740992 * (7226161561168607 / 9007199254740992)"]
    rhe_near [of 5797297187649733
      "7226161561168607 / 9007199254740992 * (7226161561168607 / 9007199254740992)
         / 2 powr (of_int (- 1) - 52)"]
  by (simp add: powr_neg_numeral)

lemma rnd_sample_y:
  "rnd (5377009159978803 / 9007199254740992 * (5377009159978803 / 9007199254740992))
     = 6419804134182517 / 18014398509481984"
  using rnd_binade [of "- 2"
      "5377009159978803 / 9007199254740992 * (5377009159978803 / 9007199254740992)"]
    rhe_near [of 6419804134182517
      "5377009159978803 / 9007199254740992 * (5377009159978803 / 9007199254740992)
         / 2 powr (of_int (- 2) - 52)"]
  by (simp add: powr_neg_numeral)

lemma rnd_sample_sum:
  "rnd (5797297187649733 / 9007199254740992 + 6419804134182517 / 18014398509481984) = 1"
proof -
  have s: "5797297187649733 / 9007199254740992 + 6419804134182517 / 18014398509481984
      = (18014398509481983 / 18014398509481984 :: real)"
    by simp
  have m: "(18014398509481983 / 18014398509481984 :: real) / 2 powr (of_int (- 1) - 52)
      = of_int 9007199254740991 + 1 / 2"
    by (simp add: powr_neg_numeral)
  have "rnd (18014398509481983 / 18014398509481984)
      = of_int (round_half_even (18014398509481983 / 18014398509481984 / 2 powr (of_int (- 1) - 52)))
          * 2 powr (of_int (- 1) - 52)"
    by (rule rnd_binade) (simp_all add: powr_neg_numeral)
  also have "\<dots> = of_int (9007199254740991 + 1) * 2 powr (of_int (- 1) - 52)"
    unfolding m by (subst rhe_tie_odd) simp_all
  also have "\<dots> = 1"
    by (simp add: powr_neg_numeral)
  finally show ?thesis
    by (simp only: s)
qed

lemma norm_sample:
  "rnd (sqrt (rnd (rnd (7226161561168607 / 9007199254740992 * (7226161561168607 / 9007199254740992))
     + rnd (5377009159978803 / 9007199254740992 * (5377009159978803 / 9007199254740992))))) = 1"
  by (simp only: rnd_sample_x rnd_sample_y rnd_sample_sum real_sqrt_one rnd_1)

lemma exact_norm_sample:
  "sqrt ((7226161561168607 / 9007199254740992)\<^sup>2 + (5377009159978803 / 9007199254740992)\<^sup>2) < 1"
  by (simp add: power2_eq_square)

lemma next_double_sample_x: "next_double 3445702336 1012578240 = 7226161561168607 / 9007199254740992"
  by (simp add: next_double_def drop_bit_eq_div unat_div)

lemma next_double_sample_y: "next_double 2563957760 1003474112 = 5377009159978803 / 9007199254740992"
  by (simp add: next_double_def drop_bit_eq_div unat_div)

subsection \<open>The batch and the count\<close>

lemma upt_two: "[0..<2] = [0, Suc 0]"
  by (simp add: upt_rec)

lemma rand_int:
  "0 \<le> n \<Longrightarrow> n < 2 ^ 59 \<Longrightarrow> rand (PyInt n) 2 g =
     (Inr (map (\<lambda>i. [draws g (pos g + i * 2), draws g (pos g + i * 2 + 1)]) [0..<nat n]),
      g\<lparr>pos := pos g + nat n * 2\<rparr>)"
  by (simp add: rand_def upt_two)

lemma worker_int:
  "0 \<le> n \<Longrightarrow> n < 2 ^ 59 \<Longrightarrow> worker (PyInt n) g =
     (Inr (int (length (filter (\<lambda>i.
          rnd (sqrt (rnd (rnd (draws g (pos g + 2 * i) * draws g (pos g + 2 * i))
                 + rnd (draws g (pos g + 2 * i + 1) * draws g (pos g + 2 * i + 1))))) < 1)
        [0..<nat n]))),
      g\<lparr>pos := pos g + 2 * nat n\<rparr>)"
  by (simp add: worker_def rand_int norm_axis1_def less_scalar_def count_nonzero_def
      filter_map comp_def mult.commute)

lemma length_filter_upt: "length (filter P [0..<m]) = card {i. i < m \<and> P i}"
proof -
  have "set (filter P [0..<m]) = {i. i < m \<and> P i}"
    by auto
  moreover have "distinct (filter P [0..<m])"
    by simp
  ultimately show ?thesis
    using distinct_card [of "filter P [0..<m]"] by simp
qed

lemma worker_single:
  "worker (PyInt 1) g =
     (Inr (if rnd (sqrt (rnd (rnd (draws g (pos g) * draws g (pos g))
                 + rnd (draws g (pos g + 1) * draws g (pos g + 1))))) < 1 then 1 else 0),
      g\<lparr>pos := pos g + 2\<rparr>)"
  by (simp add: worker_int)

text \<open>
  C1, as the code has it: for \<open>0 \<le> n < 2^59\<close> the worker returns the number of samples
  \<open>i < n\<close> whose norm as computed in binary64, the rounded square root of the rounded sum
  of the rounded squares, is strictly below 1; sample \<open>i\<close> is the pair of draws \<open>2 * i\<close>
  and \<open>2 * i + 1\<close> after the generator's position. A sample whose computed norm is 1 or
  more is not in the set, so it is not counted.
\<close>

theorem worker_counts_computed_norm:
  "0 \<le> n \<Longrightarrow> n < 2 ^ 59 \<Longrightarrow>
   fst (worker (PyInt n) g) =
     Inr (int (card {i. i < nat n \<and>
        rnd (sqrt (rnd (rnd (draws g (pos g + 2 * i) * draws g (pos g + 2 * i))
               + rnd (draws g (pos g + 2 * i + 1) * draws g (pos g + 2 * i + 1))))) < 1}))"
  by (simp add: worker_int length_filter_upt)

text \<open>
  Two samples that NumPy can draw: \<open>(0, 0)\<close>, and the sample above whose computed norm
  is exactly 1. Only the first counts.
\<close>

theorem worker_counts_computed_norm_witness:
  "(0::int) \<le> 2 \<and> (2::int) < 2 ^ 59 \<and>
   fst (worker (PyInt 2)
     \<lparr>draws = mt_draws (\<lambda>k. if k = 4 then 3445702336 else if k = 5 then 1012578240
        else if k = 6 then 2563957760 else if k = 7 then 1003474112 else 0), pos = 0\<rparr>) = Inr 1"
proof -
  define w :: "nat \<Rightarrow> 32 word" where
    "w = (\<lambda>k. if k = 4 then 3445702336 else if k = 5 then 1012578240
        else if k = 6 then 2563957760 else if k = 7 then 1003474112 else 0)"
  define g where "g = \<lparr>draws = mt_draws w, pos = 0\<rparr>"
  define P where "P i \<longleftrightarrow>
      rnd (sqrt (rnd (rnd (draws g (pos g + 2 * i) * draws g (pos g + 2 * i))
             + rnd (draws g (pos g + 2 * i + 1) * draws g (pos g + 2 * i + 1))))) < 1" for i
  have d0: "draws g (pos g + 2 * 0) = 0" "draws g (pos g + 2 * 0 + 1) = 0"
    by (simp_all add: g_def w_def mt_draws_def next_double_def)
  have d1: "draws g (pos g + 2 * 1) = 7226161561168607 / 9007199254740992"
    "draws g (pos g + 2 * 1 + 1) = 5377009159978803 / 9007199254740992"
    by (simp_all add: g_def w_def mt_draws_def next_double_sample_x next_double_sample_y)
  have "P 0"
    unfolding P_def d0 by (simp add: rnd_0)
  moreover have "\<not> P 1"
    unfolding P_def d1 norm_sample by simp
  ultimately have "{i. i < nat 2 \<and> P i} = {0}"
    by (auto simp: less_2_cases_iff)
  then have "card {i. i < nat 2 \<and> P i} = 1"
    by simp
  moreover have "fst (worker (PyInt 2) g) = Inr (int (card {i. i < nat 2 \<and> P i}))"
    unfolding P_def by (rule worker_counts_computed_norm) simp_all
  ultimately have "fst (worker (PyInt 2) g) = Inr 1"
    by simp
  then show ?thesis
    by (simp add: g_def w_def)
qed

text \<open>
  C1 as stated, with the exact norm \<open>sqrt (x\<^sup>2 + y\<^sup>2)\<close>, fails: on the one sample
  drawn from these four generator outputs the exact norm is below 1, so the claim counts
  it, and the worker returns 0.
\<close>

theorem worker_exact_norm_counterexample:
  "fst (worker (PyInt 1)
     \<lparr>draws = mt_draws (\<lambda>k. if k = 0 then 3445702336 else if k = 1 then 1012578240
        else if k = 2 then 2563957760 else 1003474112), pos = 0\<rparr>) = Inr 0 \<and>
   mt_draws (\<lambda>k. if k = 0 then 3445702336 else if k = 1 then 1012578240
        else if k = 2 then 2563957760 else 1003474112) 0 = 7226161561168607 / 9007199254740992 \<and>
   mt_draws (\<lambda>k. if k = 0 then 3445702336 else if k = 1 then 1012578240
        else if k = 2 then 2563957760 else 1003474112) 1 = 5377009159978803 / 9007199254740992 \<and>
   sqrt ((7226161561168607 / 9007199254740992)\<^sup>2 + (5377009159978803 / 9007199254740992)\<^sup>2) < 1"
proof -
  define w :: "nat \<Rightarrow> 32 word" where
    "w = (\<lambda>k. if k = 0 then 3445702336 else if k = 1 then 1012578240
        else if k = 2 then 2563957760 else 1003474112)"
  define g where "g = \<lparr>draws = mt_draws w, pos = 0\<rparr>"
  have m: "mt_draws w 0 = 7226161561168607 / 9007199254740992"
    "mt_draws w 1 = 5377009159978803 / 9007199254740992"
    by (simp_all add: w_def mt_draws_def next_double_sample_x next_double_sample_y)
  have d: "draws g (pos g) = 7226161561168607 / 9007199254740992"
    "draws g (pos g + 1) = 5377009159978803 / 9007199254740992"
    using m by (simp_all add: g_def)
  have "fst (worker (PyInt 1) g) = Inr 0"
    unfolding worker_single d norm_sample by simp
  with m exact_norm_sample show ?thesis
    unfolding g_def w_def by blast
qed

text \<open>
  C2: whenever the worker returns a count \<open>r\<close> for \<open>iterations = n\<close>, it is an integer
  with \<open>0 \<le> r \<le> n\<close>; and for \<open>0 \<le> n < 2^59\<close> it does return one.
\<close>

theorem worker_count_bounds:
  "(fst (worker (PyInt n) g) = Inr r \<longrightarrow> 0 \<le> r \<and> r \<le> n) \<and>
   (0 \<le> n \<and> n < 2 ^ 59 \<longrightarrow> (\<exists>c. fst (worker (PyInt n) g) = Inr c \<and> 0 \<le> c \<and> c \<le> n))"
proof -
  let ?P = "\<lambda>i. rnd (sqrt (rnd (rnd (draws g (pos g + 2 * i) * draws g (pos g + 2 * i))
                 + rnd (draws g (pos g + 2 * i + 1) * draws g (pos g + 2 * i + 1))))) < 1"
  have len: "int (length (filter ?P [0..<nat n])) \<le> n" if "0 \<le> n"
  proof -
    have "length (filter ?P [0..<nat n]) \<le> length [0..<nat n]"
      by (rule length_filter_le)
    with that show ?thesis
      by simp
  qed
  have ret: "\<exists>c. fst (worker (PyInt n) g) = Inr c \<and> 0 \<le> c \<and> c \<le> n" if "0 \<le> n" "n < 2 ^ 59"
    using that len by (simp add: worker_int)
  have "0 \<le> r \<and> r \<le> n" if r: "fst (worker (PyInt n) g) = Inr r"
  proof -
    have "0 \<le> n \<and> n < 2 ^ 59"
    proof (rule ccontr)
      assume "\<not> (0 \<le> n \<and> n < 2 ^ 59)"
      then have "fst (worker (PyInt n) g) = Inl ValueError"
        by (auto simp: worker_def rand_def)
      with r show False
        by simp
    qed
    with ret r show ?thesis
      by auto
  qed
  with ret show ?thesis
    by blast
qed

theorem worker_count_bounds_witness:
  "fst (worker (PyInt 3) \<lparr>draws = (\<lambda>k. 0), pos = 0\<rparr>) = Inr 3 \<and>
   (0::int) \<le> 3 \<and> (3::int) \<le> 3 \<and> (3::int) < 2 ^ 59"
proof -
  have "fst (worker (PyInt 3) \<lparr>draws = (\<lambda>k. 0), pos = 0\<rparr>) = Inr 3"
    by (simp add: worker_int rnd_0)
  then show ?thesis
    using worker_count_bounds [of 3 "\<lparr>draws = (\<lambda>k. 0), pos = 0\<rparr>" 3] by simp
qed

subsection \<open>Arguments\<close>

text \<open>
  C3, as the code has it: the worker raises on a negative \<open>iterations\<close> (\<open>ValueError\<close>)
  and on a float (\<open>TypeError\<close>), the two exceptions Python has for an invalid argument,
  in particular on \<open>-1\<close> and on \<open>2.5\<close>; on an integer \<open>0 \<le> n < 2^59\<close>, 0 included, it
  returns a count; from \<open>2^59\<close> on the shape is refused with \<open>ValueError\<close>.
\<close>

theorem worker_argument_errors:
  "(n < 0 \<longrightarrow> fst (worker (PyInt n) g) = Inl ValueError) \<and>
   fst (worker (PyFloat r) g) = Inl TypeError \<and>
   fst (worker (PyInt (- 1)) g) = Inl ValueError \<and>
   fst (worker (PyFloat 2.5) g) = Inl TypeError \<and>
   (0 \<le> n \<and> n < 2 ^ 59 \<longrightarrow> (\<exists>c. fst (worker (PyInt n) g) = Inr c)) \<and>
   (2 ^ 59 \<le> n \<longrightarrow> fst (worker (PyInt n) g) = Inl ValueError)"
  by (simp add: worker_def rand_def)

theorem worker_argument_errors_witness:
  "(- 7 < (0::int) \<and>
    fst (worker (PyInt (- 7)) \<lparr>draws = (\<lambda>k. 0), pos = 0\<rparr>) = Inl ValueError) \<and>
   ((0::int) \<le> 576460752303423487 \<and> (576460752303423487::int) < 2 ^ 59 \<and>
    (\<exists>c. fst (worker (PyInt 576460752303423487) \<lparr>draws = (\<lambda>k. 0), pos = 0\<rparr>) = Inr c)) \<and>
   ((2::int) ^ 59 \<le> 576460752303423488 \<and>
    fst (worker (PyInt 576460752303423488) \<lparr>draws = (\<lambda>k. 0), pos = 0\<rparr>) = Inl ValueError)"
  using worker_argument_errors [of "- 7" "\<lparr>draws = (\<lambda>k. 0), pos = 0\<rparr>" 0]
    worker_argument_errors [of 576460752303423487 "\<lparr>draws = (\<lambda>k. 0), pos = 0\<rparr>" 0]
    worker_argument_errors [of 576460752303423488 "\<lparr>draws = (\<lambda>k. 0), pos = 0\<rparr>" 0]
  by simp

text \<open>
  C3 as stated, without a limit, fails: \<open>2^63\<close> is a non-negative integer and the worker
  raises \<open>ValueError\<close> on it.
\<close>

theorem worker_huge_counterexample:
  "(0::int) \<le> 2 ^ 63 \<and>
   fst (worker (PyInt (2 ^ 63)) \<lparr>draws = (\<lambda>k. 0), pos = 0\<rparr>) = Inl ValueError"
  by (simp add: worker_def rand_def)

text \<open>
  C4: \<open>count_inside(0)\<close> returns exactly 0.
\<close>

theorem worker_zero_returns_zero: "fst (worker (PyInt 0) g) = Inr 0"
  by (simp add: worker_int)

subsection \<open>The generator as the only input\<close>

text \<open>
  C5: two calls with the same \<open>iterations\<close>, on generators whose streams of draws are the
  same from their positions on, return the same result (the same count, or the same
  error).
\<close>

theorem worker_deterministic:
  "\<forall>j. draws g1 (pos g1 + j) = draws g2 (pos g2 + j) \<Longrightarrow>
   fst (worker v g1) = fst (worker v g2)"
  by (cases v) (simp_all add: worker_def rand_def add.assoc)

theorem worker_deterministic_witness:
  "(\<forall>j. draws \<lparr>draws = (\<lambda>k. 0), pos = 0\<rparr> (pos \<lparr>draws = (\<lambda>k. 0), pos = 0\<rparr> + j)
      = draws \<lparr>draws = (\<lambda>k. if k < 3 then 1 else 0), pos = 3\<rparr>
          (pos \<lparr>draws = (\<lambda>k. if k < 3 then 1 else 0), pos = 3\<rparr> + j)) \<and>
   fst (worker (PyInt 2) \<lparr>draws = (\<lambda>k. 0), pos = 0\<rparr>)
     = fst (worker (PyInt 2) \<lparr>draws = (\<lambda>k. if k < 3 then 1 else 0), pos = 3\<rparr>)"
proof -
  let ?g1 = "\<lparr>draws = (\<lambda>k. 0::real), pos = 0\<rparr>"
  let ?g2 = "\<lparr>draws = (\<lambda>k. if k < 3 then 1 else (0::real)), pos = 3\<rparr>"
  have same: "\<forall>j. draws ?g1 (pos ?g1 + j) = draws ?g2 (pos ?g2 + j)"
    by simp
  from worker_deterministic [OF same, of "PyInt 2"] same show ?thesis
    by simp
qed

text \<open>
  C6: on a source whose every draw is \<open>0.0\<close>, so that every sample is \<open>(0.0, 0.0)\<close>,
  \<open>count_inside(5)\<close> returns 5; on a source whose every sample is \<open>(1.0, 1.0)\<close> it
  returns 0.
\<close>

theorem worker_fixed_sources:
  "fst (worker (PyInt 5) \<lparr>draws = (\<lambda>k. 0), pos = p\<rparr>) = Inr 5 \<and>
   fst (worker (PyInt 5) \<lparr>draws = (\<lambda>k. 1), pos = p\<rparr>) = Inr 0"
  by (simp add: worker_int rnd_0 rnd_1 rnd_2 rnd_sqrt_2)

text \<open>
  C7: with \<open>iterations = 0\<close> the worker returns 0 and nothing is consumed from the
  generator: its state after the call is its state before.
\<close>

theorem worker_zero_consumes_nothing: "worker (PyInt 0) g = (Inr 0, g)"
  by (simp add: worker_int)

text \<open>
  C8: on a negative or a float \<open>iterations\<close> the call ends in the error alone: there is
  no count, and the generator is left as it was, nothing consumed.
\<close>

theorem worker_invalid_leaves_generator:
  "(n < 0 \<longrightarrow> worker (PyInt n) g = (Inl ValueError, g)) \<and>
   worker (PyFloat r) g = (Inl TypeError, g)"
  by (simp add: worker_def rand_def)

theorem worker_invalid_leaves_generator_witness:
  "- 1 < (0::int) \<and>
   worker (PyInt (- 1)) \<lparr>draws = (\<lambda>k. 1 / 2), pos = 4\<rparr>
     = (Inl ValueError, \<lparr>draws = (\<lambda>k. 1 / 2), pos = 4\<rparr>)"
  using worker_invalid_leaves_generator [of "- 1" "\<lparr>draws = (\<lambda>k. 1 / 2), pos = 4\<rparr>" 0]
  by simp

subsection \<open>The range of NumPy's draws\<close>

lemma unat_drop_bit_5: "unat (drop_bit 5 (a :: 32 word)) < 134217728"
proof -
  have "unat a < 2 ^ 32"
    using unsigned_less [of a] by simp
  then have "unat a div 2 ^ 5 < 2 ^ 27"
    by (simp add: less_mult_imp_div_less)
  moreover have "unat (drop_bit 5 a) = unat a div 2 ^ 5"
    unfolding unat_drop_bit_eq by (rule drop_bit_eq_div)
  ultimately show ?thesis
    by simp
qed

lemma unat_drop_bit_6: "unat (drop_bit 6 (b :: 32 word)) < 67108864"
proof -
  have "unat b < 2 ^ 32"
    using unsigned_less [of b] by simp
  then have "unat b div 2 ^ 6 < 2 ^ 26"
    by (simp add: less_mult_imp_div_less)
  moreover have "unat (drop_bit 6 b) = unat b div 2 ^ 6"
    unfolding unat_drop_bit_eq by (rule drop_bit_eq_div)
  ultimately show ?thesis
    by simp
qed

lemma next_double_range:
  "0 \<le> next_double a b \<and> next_double a b \<le> 9007199254740991 / 9007199254740992"
proof -
  define x where "x = real (unat (drop_bit 5 a))"
  define y where "y = real (unat (drop_bit 6 b))"
  have "unat (drop_bit 5 a) \<le> 134217727" and "unat (drop_bit 6 b) \<le> 67108863"
    using unat_drop_bit_5 [of a] unat_drop_bit_6 [of b] by simp_all
  then have "x \<le> real 134217727" and "y \<le> real 67108863"
    unfolding x_def y_def by (simp_all only: of_nat_le_iff)
  moreover have "0 \<le> x" and "0 \<le> y"
    unfolding x_def y_def by (simp_all only: of_nat_0_le_iff)
  moreover have "next_double a b = (x * 67108864 + y) / 9007199254740992"
    by (simp add: next_double_def x_def y_def)
  ultimately show ?thesis
    by simp
qed

lemma next_double_zero: "next_double 0 0 = 0"
  by (simp add: next_double_def)

lemma mt_draws_range:
  "0 \<le> mt_draws w k \<and> mt_draws w k \<le> 9007199254740991 / 9007199254740992"
  unfolding mt_draws_def by (rule next_double_range)

lemma mt_draws_less_1: "mt_draws w k < 1"
  using mt_draws_range [of w k] by simp

text \<open>
  C10: when the generator's doubles are NumPy's, every coordinate of the batch that
  \<open>np.random.rand(iterations, 2)\<close> returns lies in \<open>[0, 1)\<close>, so 1.0 is never drawn, while
  0.0 is the double of two zero outputs; every distance of the batch lies in
  \<open>[0, sqrt 2)\<close>; and a sample \<open>(0, 0)\<close> is counted.
\<close>

theorem numpy_draws_half_open:
  assumes "draws g = mt_draws w" and "rand (PyInt n) 2 g = (Inr a, g')"
  shows "(\<forall>row \<in> set a. \<forall>c \<in> set row. 0 \<le> c \<and> c < 1) \<and>
         (\<forall>d \<in> set (norm_axis1 a). 0 \<le> d \<and> d < sqrt 2) \<and>
         next_double 0 0 = 0 \<and>
         count_nonzero (less_scalar (norm_axis1 [[0, 0]]) 1) = 1"
proof -
  from assms(2) have n: "0 \<le> n" "n < 2 ^ 59"
    by (auto simp: rand_def split: if_splits)
  with assms have a:
    "a = map (\<lambda>i. [mt_draws w (pos g + i * 2), mt_draws w (pos g + i * 2 + 1)]) [0..<nat n]"
    by (simp add: rand_int)
  have coords: "\<forall>row \<in> set a. \<forall>c \<in> set row. 0 \<le> c \<and> c < 1"
    unfolding a using mt_draws_range mt_draws_less_1 by auto
  have "0 \<le> d \<and> d < sqrt 2" if "d \<in> set (norm_axis1 a)" for d
  proof -
    from that obtain i where
      "d = rnd (sqrt (rnd (rnd (mt_draws w (pos g + i * 2) * mt_draws w (pos g + i * 2))
              + rnd (mt_draws w (pos g + i * 2 + 1) * mt_draws w (pos g + i * 2 + 1)))))"
      unfolding a norm_axis1_def by auto
    then show ?thesis
      using mt_draws_range by (simp only: norm_row_bounds)
  qed
  moreover have "count_nonzero (less_scalar (norm_axis1 [[0, 0]]) 1) = 1"
    by (simp add: norm_axis1_def less_scalar_def count_nonzero_def rnd_0)
  ultimately show ?thesis
    using coords next_double_zero by simp
qed

theorem numpy_draws_half_open_witness:
  "draws \<lparr>draws = mt_draws (\<lambda>k. 0), pos = 0\<rparr> = mt_draws (\<lambda>k. 0) \<and>
   rand (PyInt 1) 2 \<lparr>draws = mt_draws (\<lambda>k. 0), pos = 0\<rparr>
     = (Inr [[0, 0]], \<lparr>draws = mt_draws (\<lambda>k. 0), pos = 2\<rparr>) \<and>
   norm_axis1 [[0, 0]] = [0] \<and> (0::real) < sqrt 2 \<and>
   count_nonzero (less_scalar (norm_axis1 [[0, 0]]) 1) = 1"
proof -
  let ?g = "\<lparr>draws = mt_draws (\<lambda>k. 0), pos = 0\<rparr>"
  have r: "rand (PyInt 1) 2 ?g = (Inr [[0, 0]], \<lparr>draws = mt_draws (\<lambda>k. 0), pos = 2\<rparr>)"
    by (simp add: rand_def upt_two mt_draws_def next_double_def)
  have d: "draws ?g = mt_draws (\<lambda>k. 0)"
    by simp
  show ?thesis
    using numpy_draws_half_open [OF d r] r by (simp add: norm_axis1_def rnd_0)
qed

end
